theory Spec2Isabelle
  imports Main "HOL-Library.Word" "HOL-Library.Signed_Division"
begin

section \<open>The file device behind the file stream\<close>

text \<open>
  \<open>QFile\<close> is Qt's. The stream only calls \<open>open\<close>, \<open>isOpen\<close>, \<open>write\<close>, \<open>flush\<close>,
  \<open>close\<close> and \<open>errorString\<close> on it, so the device is a record of what it will answer
  (whether it can be opened, the result of its k-th \<open>write\<close>: a byte count or \<open>-1\<close>) and of
  the calls it has received, in order.
\<close>

datatype file_event = FOpen | FWrite string | FFlush | FClose

record QFile =
  qf_openable :: bool
  qf_isOpen :: bool
  qf_errorString :: string
  qf_outcome :: "nat \<Rightarrow> int"
  qf_nwrites :: nat
  qf_events :: "file_event list"

definition QFile_open :: "QFile \<Rightarrow> bool \<times> QFile" where
  "QFile_open f =
     (qf_openable f, f\<lparr>qf_isOpen := qf_openable f, qf_events := qf_events f @ [FOpen]\<rparr>)"

definition QFile_write :: "string \<Rightarrow> QFile \<Rightarrow> int \<times> QFile" where
  "QFile_write bytes f =
     (qf_outcome f (qf_nwrites f),
      f\<lparr>qf_nwrites := Suc (qf_nwrites f), qf_events := qf_events f @ [FWrite bytes]\<rparr>)"

definition QFile_flush :: "QFile \<Rightarrow> QFile" where
  "QFile_flush f = f\<lparr>qf_events := qf_events f @ [FFlush]\<rparr>"

definition QFile_close :: "QFile \<Rightarrow> QFile" where
  "QFile_close f = f\<lparr>qf_isOpen := False, qf_events := qf_events f @ [FClose]\<rparr>"

section \<open>QLoggerFileStream\<close>

text \<open>
  \<open>_flush_rate\<close> and \<open>_flush_count\<close> are C++ \<open>int\<close>: 32-bit words read as signed.
  \<open>%\<close> is the truncating remainder of the signed values, \<open>> 0\<close> the signed
  comparison. The counter is below the rate whenever the rate is positive, so that
  \<open>_flush_count + 1\<close> does not overflow. \<open>qint64 bytes\<close> is only compared with \<open>-1\<close> and
  returned. The file is handed the text itself; \<open>toUtf8\<close> is not modelled.
\<close>

definition int_rem :: "32 word \<Rightarrow> 32 word \<Rightarrow> 32 word" where
  "int_rem a b = word_of_int (sint a smod sint b)"

record QLoggerFileStream =
  qfile :: QFile
  flush_rate :: "32 word"
  flush_count :: "32 word"

definition QLoggerFileStream_init :: "QFile \<Rightarrow> QLoggerFileStream" where
  "QLoggerFileStream_init f = \<lparr>qfile = f, flush_rate = 4, flush_count = 0\<rparr>"

definition QLoggerFileStream_open :: "QLoggerFileStream \<Rightarrow> bool \<times> QLoggerFileStream" where
  "QLoggerFileStream_open fs = (case QFile_open (qfile fs) of (ok, f) \<Rightarrow> (ok, fs\<lparr>qfile := f\<rparr>))"

definition QLoggerFileStream_isOpen :: "QLoggerFileStream \<Rightarrow> bool" where
  "QLoggerFileStream_isOpen fs = qf_isOpen (qfile fs)"

definition QLoggerFileStream_write :: "string \<Rightarrow> QLoggerFileStream \<Rightarrow> int \<times> QLoggerFileStream" where
  "QLoggerFileStream_write s fs =
     (case QFile_write s (qfile fs) of (bytes, f) \<Rightarrow>
        if bytes \<noteq> - 1 \<and> 0 <s flush_rate fs then
          (let c = int_rem (flush_count fs + 1) (flush_rate fs) in
           if c = 0 then (bytes, fs\<lparr>qfile := QFile_flush f, flush_count := c\<rparr>)
           else (bytes, fs\<lparr>qfile := f, flush_count := c\<rparr>))
        else (bytes, fs\<lparr>qfile := f\<rparr>))"

definition QLoggerFileStream_flush :: "QLoggerFileStream \<Rightarrow> QLoggerFileStream" where
  "QLoggerFileStream_flush fs = fs\<lparr>qfile := QFile_flush (qfile fs)\<rparr>"

definition QLoggerFileStream_close :: "QLoggerFileStream \<Rightarrow> QLoggerFileStream" where
  "QLoggerFileStream_close fs = fs\<lparr>qfile := QFile_close (qfile fs)\<rparr>"

definition QLoggerFileStream_errorString :: "QLoggerFileStream \<Rightarrow> string" where
  "QLoggerFileStream_errorString fs = qf_errorString (qfile fs)"

definition setFlushRate :: "32 word \<Rightarrow> QLoggerFileStream \<Rightarrow> QLoggerFileStream" where
  "setFlushRate rate fs = fs\<lparr>flush_rate := rate, flush_count := 0\<rparr>"

definition flushRate :: "QLoggerFileStream \<Rightarrow> 32 word" where
  "flushRate fs = flush_rate fs"

text \<open>A run of \<open>write\<close> calls, one per string, results dropped.\<close>

fun writes :: "string list \<Rightarrow> QLoggerFileStream \<Rightarrow> QLoggerFileStream" where
  "writes [] fs = fs"
| "writes (s # ss) fs = writes ss (snd (QLoggerFileStream_write s fs))"

text \<open>How many of the device's write calls number \<open>k\<close>, \<open>k + 1\<close>, ..., \<open>k + n - 1\<close> succeed.\<close>

fun successes :: "(nat \<Rightarrow> int) \<Rightarrow> nat \<Rightarrow> nat \<Rightarrow> nat" where
  "successes out k 0 = 0"
| "successes out k (Suc n) = (if out k \<noteq> - 1 then 1 else 0) + successes out (Suc k) n"

definition flushes :: "QLoggerFileStream \<Rightarrow> nat" where
  "flushes fs = count_list (qf_events (qfile fs)) FFlush"

section \<open>QString::arg\<close>

text \<open>
  \<open>QString::arg(const QString &a)\<close> is Qt's. Its documented behaviour, on ASCII text: a place
  marker is \<open>%\<close>, an optional \<open>L\<close>, and one or two decimal digits; \<open>arg\<close> returns a copy of the
  string in which every occurrence of the lowest-numbered place marker is replaced by \<open>a\<close>, and
  the string itself when it has no place marker. A chain \<open>s.arg(a).arg(b)\<close> scans the result of
  \<open>s.arg(a)\<close> again, text of \<open>a\<close> included.
\<close>

definition digitValue :: "char \<Rightarrow> nat option" where
  "digitValue c =
     (let n = (of_char c :: nat) in if 48 \<le> n \<and> n \<le> 57 then Some (n - 48) else None)"

text \<open>
  \<open>escape_at cs\<close> reads the text after a \<open>%\<close>: the number of the place marker that starts
  there and how many characters it takes, if one does.
\<close>

definition escape_digits :: "string \<Rightarrow> (nat \<times> nat) option" where
  "escape_digits cs =
     (case cs of
        [] \<Rightarrow> None
      | d # r \<Rightarrow>
          (case digitValue d of
             None \<Rightarrow> None
           | Some v \<Rightarrow>
               (case r of
                  [] \<Rightarrow> Some (v, 1)
                | d2 # _ \<Rightarrow>
                    (case digitValue d2 of
                       None \<Rightarrow> Some (v, 1)
                     | Some v2 \<Rightarrow> Some (10 * v + v2, 2)))))"

definition escape_at :: "string \<Rightarrow> (nat \<times> nat) option" where
  "escape_at cs =
     (case cs of
        [] \<Rightarrow> None
      | c # r \<Rightarrow>
          if c = CHR ''L'' then map_option (\<lambda>(v, n). (v, Suc n)) (escape_digits r)
          else escape_digits cs)"

datatype token = Lit char | Marker nat string

function tokens :: "string \<Rightarrow> token list" where
  "tokens [] = []"
| "tokens (c # cs) =
     (if c \<noteq> CHR ''%'' then Lit c # tokens cs
      else case escape_at cs of
             None \<Rightarrow> Lit c # tokens cs
           | Some (v, n) \<Rightarrow> Marker v (c # take n cs) # tokens (drop n cs))"
  by pat_completeness auto
termination
  by (relation "measure length") auto

fun escapes :: "token list \<Rightarrow> nat list" where
  "escapes [] = []"
| "escapes (Lit c # ts) = escapes ts"
| "escapes (Marker v sp # ts) = v # escapes ts"

fun min_escape :: "nat list \<Rightarrow> nat option" where
  "min_escape [] = None"
| "min_escape (v # vs) = (case min_escape vs of None \<Rightarrow> Some v | Some m \<Rightarrow> Some (min v m))"

fun replace :: "nat \<Rightarrow> string \<Rightarrow> token list \<Rightarrow> string" where
  "replace m a [] = []"
| "replace m a (Lit c # ts) = c # replace m a ts"
| "replace m a (Marker v sp # ts) = (if v = m then a else sp) @ replace m a ts"

definition QString_arg :: "string \<Rightarrow> string \<Rightarrow> string" where
  "QString_arg s a =
     (case min_escape (escapes (tokens s)) of
        None \<Rightarrow> s
      | Some m \<Rightarrow> replace m a (tokens s))"

section \<open>The stream interface\<close>

text \<open>
  \<open>QLoggerStream\<close> is an abstract class: an implementation is a state of some type \<open>'s\<close> and
  its five virtual methods. Each method takes the state and returns its result and the new
  state.
\<close>

record 's QLoggerStream =
  s_open :: "'s \<Rightarrow> bool \<times> 's"
  s_isOpen :: "'s \<Rightarrow> bool"
  s_write :: "string \<Rightarrow> 's \<Rightarrow> int \<times> 's"
  s_close :: "'s \<Rightarrow> 's"
  s_errorString :: "'s \<Rightarrow> string"

definition QLoggerFileStream_vt :: "QLoggerFileStream QLoggerStream" where
  "QLoggerFileStream_vt =
     \<lparr>s_open = QLoggerFileStream_open, s_isOpen = QLoggerFileStream_isOpen,
      s_write = QLoggerFileStream_write, s_close = QLoggerFileStream_close,
      s_errorString = QLoggerFileStream_errorString\<rparr>"

text \<open>\<open>QLoggerDebugStream\<close> has no state; what it prints with \<open>qDebug\<close> is not kept.\<close>

definition QLoggerDebugStream_vt :: "unit QLoggerStream" where
  "QLoggerDebugStream_vt =
     \<lparr>s_open = (\<lambda>u. (True, u)), s_isOpen = (\<lambda>u. True), s_write = (\<lambda>s u. (42, u)),
      s_close = (\<lambda>u. u), s_errorString = (\<lambda>u. [])\<rparr>"

section \<open>QLogger\<close>

text \<open>
  \<open>LogLevel\<close> is a scoped enumeration over \<open>int\<close>: a 32-bit value, of which four are named.
\<close>

type_synonym LogLevel = "32 word"

definition Info :: LogLevel where "Info = 0"
definition Debug :: LogLevel where "Debug = 1"
definition Warning :: LogLevel where "Warning = 2"
definition Fatal :: LogLevel where "Fatal = 3"

text \<open>The calls the logger makes on its stream, in order.\<close>

datatype stream_call = COpen | CErrorString | CWrite string | CClose

text \<open>
  The fields of the class, the two \<open>QAtomicInt\<close> as integers. The mutex is free between two
  operations and has no field. \<open>empty_waiter\<close> says that the worker thread is blocked in
  \<open>_empty.wait\<close>, and \<open>stream_calls\<close> lists the calls made on \<open>_stream\<close> so far; neither is
  a field of the class.
\<close>

record 's QLogger =
  stream :: 's
  messages :: "string list"
  finish :: int
  messages_size :: int
  error_string :: string
  format_string :: string
  datetime_format :: string
  empty_waiter :: bool
  stream_calls :: "stream_call list"

definition QLogger_init :: "'s \<Rightarrow> 's QLogger" where
  "QLogger_init st =
     \<lparr>stream = st, messages = [], finish = 0, messages_size = 0, error_string = [],
      format_string = ''[%1] %2 %3'', datetime_format = ''dd.MM.yyyy hh:mm:ss'',
      empty_waiter = False, stream_calls = []\<rparr>"

definition logLevelToString :: "LogLevel \<Rightarrow> string" where
  "logLevelToString level =
     (if level = Info then ''INFO''
      else if level = Debug then ''DEBUG''
      else if level = Warning then ''WARNING''
      else if level = Fatal then ''FATAL''
      else [])"

text \<open>
  The statements of \<open>addMessage\<close> and \<open>finishWriting\<close> that touch the logger, as steps.
  \<open>now\<close> is \<open>QDateTime::currentDateTime().toString\<close>: the current time printed with the
  pattern it is given.
\<close>

datatype step =
    WakeOne
  | Lock
  | Unlock
  | Append string LogLevel "string \<Rightarrow> string"
  | StoreSize
  | SetFinish

definition formatted :: "'s QLogger \<Rightarrow> string \<Rightarrow> LogLevel \<Rightarrow> (string \<Rightarrow> string) \<Rightarrow> string" where
  "formatted lg message level now =
     (let levelString = logLevelToString level;
          datetime = now (datetime_format lg)
      in QString_arg (QString_arg (QString_arg (format_string lg) datetime) levelString) message
           @ ''\<newline>'')"

fun exec :: "step \<Rightarrow> 's QLogger \<Rightarrow> 's QLogger" where
  "exec WakeOne lg = lg\<lparr>empty_waiter := False\<rparr>"
| "exec Lock lg = lg"
| "exec Unlock lg = lg"
| "exec (Append message level now) lg =
     lg\<lparr>messages := messages lg @ [formatted lg message level now]\<rparr>"
| "exec StoreSize lg = lg\<lparr>messages_size := int (length (messages lg))\<rparr>"
| "exec SetFinish lg = lg\<lparr>finish := 1\<rparr>"

fun exec_steps :: "step list \<Rightarrow> 's QLogger \<Rightarrow> 's QLogger" where
  "exec_steps [] lg = lg"
| "exec_steps (a # as) lg = exec_steps as (exec a lg)"

definition addMessage_steps :: "string \<Rightarrow> LogLevel \<Rightarrow> (string \<Rightarrow> string) \<Rightarrow> step list" where
  "addMessage_steps message level now =
     [WakeOne, Lock, Append message level now, StoreSize, Unlock]"

definition addMessage :: "string \<Rightarrow> LogLevel \<Rightarrow> (string \<Rightarrow> string) \<Rightarrow> 's QLogger \<Rightarrow> 's QLogger" where
  "addMessage message level now lg = exec_steps (addMessage_steps message level now) lg"

definition finishWriting_steps :: "step list" where
  "finishWriting_steps = [WakeOne, Lock, SetFinish, Unlock]"

definition finishWriting :: "'s QLogger \<Rightarrow> 's QLogger" where
  "finishWriting lg = exec_steps finishWriting_steps lg"

definition errorString :: "'s QLogger \<Rightarrow> string" where
  "errorString lg = error_string lg"

definition setFormatString :: "string \<Rightarrow> 's QLogger \<Rightarrow> 's QLogger" where
  "setFormatString formatString lg = lg\<lparr>format_string := formatString\<rparr>"

definition setDatetimeFormat :: "string \<Rightarrow> 's QLogger \<Rightarrow> 's QLogger" where
  "setDatetimeFormat datetimeFormat lg = lg\<lparr>datetime_format := datetimeFormat\<rparr>"

subsection \<open>The worker\<close>

text \<open>
  \<open>run\<close> ends in one of three ways: it returns; it blocks in \<open>_empty.wait\<close>, where only another
  thread's \<open>wakeOne\<close> lets it go on; or it calls \<open>front()\<close> on an empty list, which is undefined.
\<close>

datatype 'a outcome = Returned 'a | Blocked 'a | Fault

text \<open>The locked section of the loop: take the front message and store the new size.\<close>

definition pop_front :: "'s QLogger \<Rightarrow> (string \<times> 's QLogger) option" where
  "pop_front lg =
     (case messages lg of
        [] \<Rightarrow> None
      | message # rest \<Rightarrow>
          Some (message, lg\<lparr>messages := rest, messages_size := int (length rest)\<rparr>))"

function run_loop :: "'s QLoggerStream \<Rightarrow> 's QLogger \<Rightarrow> 's QLogger outcome" where
  "run_loop vt lg =
     (if finish lg = 0 \<or> messages_size lg \<noteq> 0 then
        (if messages_size lg \<noteq> 0 then
           (case pop_front lg of
              None \<Rightarrow> Fault
            | Some (message, lg') \<Rightarrow>
                run_loop vt
                  (lg'\<lparr>stream := snd (s_write vt message (stream lg')),
                       stream_calls := stream_calls lg' @ [CWrite message]\<rparr>))
         else if finish lg = 0 then Blocked (lg\<lparr>empty_waiter := True\<rparr>)
         else run_loop vt lg)
      else Returned (lg\<lparr>stream := s_close vt (stream lg),
                        stream_calls := stream_calls lg @ [CClose]\<rparr>))"
  by pat_completeness auto
termination
  by (relation "measure (\<lambda>(vt, lg). length (messages lg))")
     (auto simp: pop_front_def split: list.splits)

definition run :: "'s QLoggerStream \<Rightarrow> 's QLogger \<Rightarrow> 's QLogger outcome" where
  "run vt lg =
     (case s_open vt (stream lg) of (ok, st) \<Rightarrow>
        if \<not> ok then
          Returned (lg\<lparr>error_string := s_errorString vt st, stream := s_close vt st,
                       stream_calls := stream_calls lg @ [COpen, CErrorString, CClose]\<rparr>)
        else run_loop vt (lg\<lparr>stream := st, stream_calls := stream_calls lg @ [COpen]\<rparr>))"

text \<open>
  A worker that was blocked goes on with the loop once it has been woken. From there it runs
  to its next wait or to its return in one piece: other threads act before or after it, at any
  statement of theirs, and not between the worker's test of the flag and its wait.
\<close>

definition resume :: "'s QLoggerStream \<Rightarrow> 's QLogger \<Rightarrow> 's QLogger outcome" where
  "resume vt lg = (if empty_waiter lg then Blocked lg else run_loop vt lg)"

subsection \<open>Sequences of calls\<close>

text \<open>A run of \<open>addMessage\<close> calls, each with its message, its level and its clock.\<close>

fun addMessages :: "(string \<times> LogLevel \<times> (string \<Rightarrow> string)) list \<Rightarrow> 's QLogger \<Rightarrow> 's QLogger" where
  "addMessages [] lg = lg"
| "addMessages ((message, level, now) # cs) lg = addMessages cs (addMessage message level now lg)"

text \<open>
  What the threads do to the queue, one locked section at a time. The worker pops only after
  it has read a size other than 0, and only the worker removes entries, so the size is still
  other than 0 when it holds the lock: \<open>WorkerPop\<close> is the test and the locked section.
\<close>

datatype event =
    AddMessage string LogLevel "string \<Rightarrow> string"
  | FinishWriting
  | SetFormatString string
  | SetDatetimeFormat string
  | WorkerPop

fun apply_event :: "event \<Rightarrow> 's QLogger \<Rightarrow> 's QLogger option" where
  "apply_event (AddMessage message level now) lg = Some (addMessage message level now lg)"
| "apply_event FinishWriting lg = Some (finishWriting lg)"
| "apply_event (SetFormatString f) lg = Some (setFormatString f lg)"
| "apply_event (SetDatetimeFormat d) lg = Some (setDatetimeFormat d lg)"
| "apply_event WorkerPop lg =
     (if messages_size lg \<noteq> 0 then map_option snd (pop_front lg) else Some lg)"

fun apply_events :: "event list \<Rightarrow> 's QLogger \<Rightarrow> 's QLogger option" where
  "apply_events [] lg = Some lg"
| "apply_events (e # es) lg =
     (case apply_event e lg of None \<Rightarrow> None | Some lg' \<Rightarrow> apply_events es lg')"

subsection \<open>Devices for the examples\<close>

definition plain_file :: QFile where
  "plain_file =
     \<lparr>qf_openable = True, qf_isOpen = False, qf_errorString = [],
      qf_outcome = (\<lambda>k. 1), qf_nwrites = 0, qf_events = []\<rparr>"

definition locked_file :: QFile where
  "locked_file =
     \<lparr>qf_openable = False, qf_isOpen = False, qf_errorString = ''Permission denied'',
      qf_outcome = (\<lambda>k. - 1), qf_nwrites = 0, qf_events = []\<rparr>"

definition full_disk :: QFile where
  "full_disk =
     \<lparr>qf_openable = True, qf_isOpen = False, qf_errorString = ''No space left on device'',
      qf_outcome = (\<lambda>k. - 1), qf_nwrites = 0, qf_events = []\<rparr>"

text \<open>A clock for the examples: noon of one day, in the default pattern.\<close>

definition noon :: "string \<Rightarrow> string" where
  "noon pattern = ''02.11.2026 12:00:00''"

section \<open>The flush counter of the file stream\<close>

lemma sint_succ:
  fixes c r :: "32 word"
  assumes "0 \<le> sint c" "sint c < sint r"
  shows "sint (c + 1) = sint c + 1"
proof -
  have "sint r < 2 ^ 31" using sint_lt [of r] by simp
  with assms have "- (2 ^ 31) \<le> sint c + 1" "sint c + 1 < 2 ^ 31" by simp_all
  then have "signed_take_bit 31 (sint c + 1) = sint c + 1"
    by (simp add: signed_take_bit_int_eq_self)
  then show ?thesis by (simp add: sint_word_ariths)
qed

lemma sint_int_rem:
  fixes c r :: "32 word"
  assumes "0 \<le> sint c" "sint c < sint r"
  shows "sint (int_rem (c + 1) r) = (sint c + 1) mod sint r"
proof -
  have r: "sint r < 2 ^ 31" using sint_lt [of r] by simp
  have pos: "0 < sint r" using assms by linarith
  have "sint (c + 1) smod sint r = (sint c + 1) mod sint r"
    using assms pos by (simp add: sint_succ [OF assms] signed_modulo_int_def sgn_if)
  moreover have "0 \<le> (sint c + 1) mod sint r" "(sint c + 1) mod sint r < sint r"
    using pos by simp_all
  ultimately show ?thesis
    using r unfolding int_rem_def
    by (simp add: sint_sbintrunc' signed_take_bit_int_eq_self)
qed

lemma write_fail:
  "qf_outcome (qfile fs) (qf_nwrites (qfile fs)) = - 1 \<Longrightarrow>
   QLoggerFileStream_write s fs =
     (- 1, fs\<lparr>qfile := (qfile fs)\<lparr>qf_nwrites := Suc (qf_nwrites (qfile fs)),
                              qf_events := qf_events (qfile fs) @ [FWrite s]\<rparr>\<rparr>)"
  by (simp add: QLoggerFileStream_write_def QFile_write_def)


lemma succ_mod_zero:
  fixes c r :: int
  assumes "0 \<le> c" "c < r"
  shows "((c + 1) mod r = 0) = (c + 1 = r)"
proof (cases "c + 1 < r")
  case True
  with assms show ?thesis by (simp add: mod_pos_pos_trivial)
next
  case False
  with assms have "c + 1 = r" by simp
  then show ?thesis by simp
qed

lemma write_frame:
  "flush_rate (snd (QLoggerFileStream_write s fs)) = flush_rate fs"
  "qf_outcome (qfile (snd (QLoggerFileStream_write s fs))) = qf_outcome (qfile fs)"
  "qf_nwrites (qfile (snd (QLoggerFileStream_write s fs))) = Suc (qf_nwrites (qfile fs))"
  "fst (QLoggerFileStream_write s fs) = qf_outcome (qfile fs) (qf_nwrites (qfile fs))"
  by (simp_all add: QLoggerFileStream_write_def QFile_write_def QFile_flush_def Let_def)

lemma write_ok:
  assumes "qf_outcome (qfile fs) (qf_nwrites (qfile fs)) \<noteq> - 1"
    and "0 \<le> sint (flush_count fs)" "sint (flush_count fs) < sint (flush_rate fs)"
  shows "sint (flush_count (snd (QLoggerFileStream_write s fs))) =
           (sint (flush_count fs) + 1) mod sint (flush_rate fs)"
    and "qf_events (qfile (snd (QLoggerFileStream_write s fs))) =
           qf_events (qfile fs) @ FWrite s #
             (if sint (flush_count fs) + 1 = sint (flush_rate fs) then [FFlush] else [])"
proof -
  let ?c = "int_rem (flush_count fs + 1) (flush_rate fs)"
  have pos: "0 <s flush_rate fs" using assms by (simp add: word_sless_alt)
  have c: "sint ?c = (sint (flush_count fs) + 1) mod sint (flush_rate fs)"
    by (rule sint_int_rem [OF assms(2,3)])
  have z: "(?c = 0) = (sint (flush_count fs) + 1 = sint (flush_rate fs))"
  proof -
    have "(?c = 0) = (sint ?c = 0)" by (simp add: signed_eq_0_iff)
    also have "\<dots> = (sint (flush_count fs) + 1 = sint (flush_rate fs))"
      unfolding c by (rule succ_mod_zero [OF assms(2,3)])
    finally show ?thesis .
  qed
  show "sint (flush_count (snd (QLoggerFileStream_write s fs))) =
           (sint (flush_count fs) + 1) mod sint (flush_rate fs)"
    using assms(1) pos c z
    by (auto simp: QLoggerFileStream_write_def QFile_write_def Let_def)
  show "qf_events (qfile (snd (QLoggerFileStream_write s fs))) =
           qf_events (qfile fs) @ FWrite s #
             (if sint (flush_count fs) + 1 = sint (flush_rate fs) then [FFlush] else [])"
    using assms(1) pos z
    by (simp add: QLoggerFileStream_write_def QFile_write_def QFile_flush_def Let_def)
qed

lemma div_carry:
  fixes a b r :: int
  assumes "r \<noteq> 0"
  shows "a div r + (a mod r + b) div r = (a + b) div r"
proof -
  have e: "a mod r + b + r * (a div r) = a + b"
    using mult_div_mod_eq [of r a] by linarith
  have "(a mod r + b + r * (a div r)) div r = a div r + (a mod r + b) div r"
    by (rule div_mult_self2 [OF assms])
  then show ?thesis by (simp only: e)
qed

lemma flushes_write_ok:
  assumes "qf_outcome (qfile fs) (qf_nwrites (qfile fs)) \<noteq> - 1"
    and "0 \<le> sint (flush_count fs)" "sint (flush_count fs) < sint (flush_rate fs)"
  shows "int (flushes (snd (QLoggerFileStream_write s fs))) =
           int (flushes fs) + (sint (flush_count fs) + 1) div sint (flush_rate fs)"
proof (cases "sint (flush_count fs) + 1 = sint (flush_rate fs)")
  case True
  then show ?thesis
    using assms by (simp add: flushes_def write_ok(2) [OF assms])
next
  case False
  with assms have "sint (flush_count fs) + 1 < sint (flush_rate fs)" by simp
  then show ?thesis
    using assms False by (simp add: flushes_def write_ok(2) [OF assms] div_pos_pos_trivial)
qed

lemma writes_count:
  assumes "0 \<le> sint (flush_count fs)" "sint (flush_count fs) < sint (flush_rate fs)"
  shows "sint (flush_count (writes ss fs)) =
           (sint (flush_count fs) +
              int (successes (qf_outcome (qfile fs)) (qf_nwrites (qfile fs)) (length ss)))
           mod sint (flush_rate fs)
         \<and> int (flushes (writes ss fs)) =
           int (flushes fs) +
           (sint (flush_count fs) +
              int (successes (qf_outcome (qfile fs)) (qf_nwrites (qfile fs)) (length ss)))
           div sint (flush_rate fs)
         \<and> flush_rate (writes ss fs) = flush_rate fs"
  using assms
proof (induction ss arbitrary: fs)
  case Nil
  then show ?case by (simp add: mod_pos_pos_trivial div_pos_pos_trivial)
next
  case (Cons s ss)
  let ?fs1 = "snd (QLoggerFileStream_write s fs)"
  let ?R = "sint (flush_rate fs)"
  let ?c = "sint (flush_count fs)"
  let ?n = "int (successes (qf_outcome (qfile fs)) (Suc (qf_nwrites (qfile fs))) (length ss))"
  have R: "0 < ?R" using Cons.prems by linarith
  show ?case
  proof (cases "qf_outcome (qfile fs) (qf_nwrites (qfile fs)) = - 1")
    case True
    have fs1: "flush_count ?fs1 = flush_count fs" "flushes ?fs1 = flushes fs"
      by (simp_all add: write_fail [OF True] flushes_def)
    from Cons.IH [of ?fs1] Cons.prems True show ?thesis
      by (simp add: fs1 write_frame)
  next
    case False
    note ok = write_ok(1) [OF False Cons.prems, of s]
    note fl = flushes_write_ok [OF False Cons.prems, of s]
    have b: "0 \<le> sint (flush_count ?fs1)" "sint (flush_count ?fs1) < sint (flush_rate ?fs1)"
      using R by (simp_all add: ok write_frame)
    have m: "((?c + 1) mod ?R + ?n) mod ?R = (?c + (1 + ?n)) mod ?R"
      by (simp add: mod_add_left_eq add.assoc)
    have d: "(?c + 1) div ?R + ((?c + 1) mod ?R + ?n) div ?R = (?c + (1 + ?n)) div ?R"
      using R div_carry [of ?R "?c + 1" ?n] by (simp add: add.assoc)
    from Cons.IH [OF b] False m d show ?thesis
      by (simp add: ok fl write_frame add.assoc)
  qed
qed

lemma writes_no_flush:
  assumes "\<not> 0 <s flush_rate fs"
  shows "qf_events (qfile (writes ss fs)) = qf_events (qfile fs) @ map FWrite ss
         \<and> flush_count (writes ss fs) = flush_count fs
         \<and> flush_rate (writes ss fs) = flush_rate fs"
  using assms
proof (induction ss arbitrary: fs)
  case Nil
  then show ?case by simp
next
  case (Cons s ss)
  let ?fs1 = "snd (QLoggerFileStream_write s fs)"
  have 1: "qf_events (qfile ?fs1) = qf_events (qfile fs) @ [FWrite s]"
    "flush_count ?fs1 = flush_count fs" "flush_rate ?fs1 = flush_rate fs"
    using Cons.prems by (simp_all add: QLoggerFileStream_write_def QFile_write_def)
  from Cons.IH [of ?fs1] Cons.prems 1 show ?case by simp
qed

lemma writes_append:
  "writes (ss @ [s]) fs = snd (QLoggerFileStream_write s (writes ss fs))"
  by (induction ss arbitrary: fs) simp_all

lemma writes_device:
  "qf_outcome (qfile (writes ss fs)) = qf_outcome (qfile fs)
   \<and> qf_nwrites (qfile (writes ss fs)) = qf_nwrites (qfile fs) + length ss"
  by (induction ss arbitrary: fs) (simp_all add: write_frame)

lemma succ_eq_iff_dvd:
  fixes n r :: int
  assumes "0 < r"
  shows "(n mod r + 1 = r) = (r dvd n + 1)"
proof -
  have b: "0 \<le> n mod r" "n mod r < r" using assms by simp_all
  have "(n mod r + 1 = r) = ((n mod r + 1) mod r = 0)"
    by (rule succ_mod_zero [OF b, symmetric])
  also have "\<dots> = ((n + 1) mod r = 0)" by (simp add: mod_add_left_eq)
  also have "\<dots> = (r dvd n + 1)" by (simp add: dvd_eq_mod_eq_0)
  finally show ?thesis .
qed

text \<open>
  C4. A file stream whose counter is 0, as the constructor and \<open>setFlushRate\<close> leave it,
  receives the writes \<open>ss\<close> and then one more, \<open>s\<close>; \<open>n\<close> of the writes \<open>ss\<close> succeeded. With a
  rate \<open>R > 0\<close>, the write of \<open>s\<close> hands \<open>s\<close> to the file and flushes it exactly when it
  succeeds and is the \<open>R\<close>-th, \<open>2R\<close>-th, ... successful write; the counter after \<open>ss\<close> is
  \<open>n mod R\<close>, so 0 after each flush, and \<open>n div R\<close> flushes were issued during \<open>ss\<close>. With a
  rate \<open>R \<le> 0\<close> the file receives the writes and no flush.
\<close>

theorem flush_once_every_rate_successful_writes:
  assumes "flush_count fs = 0"
  shows "(0 <s flush_rate fs \<longrightarrow>
            qf_events (qfile (writes (ss @ [s]) fs)) =
              qf_events (qfile (writes ss fs)) @ FWrite s #
                (if qf_outcome (qfile fs) (qf_nwrites (qfile fs) + length ss) \<noteq> - 1
                    \<and> sint (flush_rate fs) dvd
                        int (successes (qf_outcome (qfile fs)) (qf_nwrites (qfile fs)) (length ss)) + 1
                 then [FFlush] else [])
            \<and> sint (flush_count (writes ss fs)) =
                int (successes (qf_outcome (qfile fs)) (qf_nwrites (qfile fs)) (length ss))
                mod sint (flush_rate fs)
            \<and> int (flushes (writes ss fs)) =
                int (flushes fs) +
                int (successes (qf_outcome (qfile fs)) (qf_nwrites (qfile fs)) (length ss))
                div sint (flush_rate fs))
         \<and> (\<not> 0 <s flush_rate fs \<longrightarrow>
               qf_events (qfile (writes ss fs)) = qf_events (qfile fs) @ map FWrite ss)"
proof (intro conjI impI)
  assume "\<not> 0 <s flush_rate fs"
  then show "qf_events (qfile (writes ss fs)) = qf_events (qfile fs) @ map FWrite ss"
    by (simp add: writes_no_flush)
next
  let ?R = "sint (flush_rate fs)"
  let ?n = "int (successes (qf_outcome (qfile fs)) (qf_nwrites (qfile fs)) (length ss))"
  let ?fs1 = "writes ss fs"
  assume "0 <s flush_rate fs"
  then have R: "0 < ?R" by (simp add: word_sless_alt)
  have c0: "0 \<le> sint (flush_count fs)" "sint (flush_count fs) < ?R"
    using assms R by simp_all
  note wc = writes_count [OF c0, of ss]
  from wc assms show cnt: "sint (flush_count ?fs1) = ?n mod ?R" by simp
  from wc assms show "int (flushes ?fs1) = int (flushes fs) + ?n div ?R" by simp
  have rate: "flush_rate ?fs1 = flush_rate fs" using wc by simp
  have b: "0 \<le> sint (flush_count ?fs1)" "sint (flush_count ?fs1) < sint (flush_rate ?fs1)"
    using R by (simp_all add: cnt rate)
  show "qf_events (qfile (writes (ss @ [s]) fs)) =
          qf_events (qfile ?fs1) @ FWrite s #
            (if qf_outcome (qfile fs) (qf_nwrites (qfile fs) + length ss) \<noteq> - 1
                \<and> ?R dvd ?n + 1
             then [FFlush] else [])"
  proof (cases "qf_outcome (qfile fs) (qf_nwrites (qfile fs) + length ss) = - 1")
    case True
    then have "qf_outcome (qfile ?fs1) (qf_nwrites (qfile ?fs1)) = - 1"
      by (simp add: writes_device)
    from write_fail [OF this, of s] True show ?thesis
      by (simp add: writes_append)
  next
    case False
    then have ok: "qf_outcome (qfile ?fs1) (qf_nwrites (qfile ?fs1)) \<noteq> - 1"
      by (simp add: writes_device)
    from write_ok(2) [OF ok b, of s] False show ?thesis
      by (simp add: writes_append cnt rate succ_eq_iff_dvd [OF R])
  qed
qed

text \<open>
  C10. A write that the file refuses with \<open>-1\<close> returns \<open>-1\<close>, leaves the counter and the rate
  as they were and hands the file the data and no flush. \<open>setFlushRate\<close> stores the rate and
  sets the counter to 0, whatever it was; after \<open>setFlushRate R\<close> with \<open>R > 0\<close>, the writes
  \<open>ss\<close>, \<open>n\<close> of them successful, issue \<open>n div R\<close> flushes: none before the \<open>R\<close>-th success.
\<close>

theorem failed_write_keeps_counter_and_setFlushRate_resets:
  "(qf_outcome (qfile fs) (qf_nwrites (qfile fs)) = - 1 \<longrightarrow>
      fst (QLoggerFileStream_write s fs) = - 1
      \<and> flush_count (snd (QLoggerFileStream_write s fs)) = flush_count fs
      \<and> flush_rate (snd (QLoggerFileStream_write s fs)) = flush_rate fs
      \<and> qf_events (qfile (snd (QLoggerFileStream_write s fs))) =
          qf_events (qfile fs) @ [FWrite s])
   \<and> flush_count (setFlushRate R fs) = 0
   \<and> flush_rate (setFlushRate R fs) = R
   \<and> (0 <s R \<longrightarrow>
        int (flushes (writes ss (setFlushRate R fs))) =
          int (flushes fs) +
          int (successes (qf_outcome (qfile fs)) (qf_nwrites (qfile fs)) (length ss)) div sint R)"
proof (intro conjI impI)
  assume f: "qf_outcome (qfile fs) (qf_nwrites (qfile fs)) = - 1"
  show "fst (QLoggerFileStream_write s fs) = - 1"
    and "flush_count (snd (QLoggerFileStream_write s fs)) = flush_count fs"
    and "flush_rate (snd (QLoggerFileStream_write s fs)) = flush_rate fs"
    and "qf_events (qfile (snd (QLoggerFileStream_write s fs))) = qf_events (qfile fs) @ [FWrite s]"
    by (simp_all add: write_fail [OF f])
next
  show "flush_count (setFlushRate R fs) = 0" and "flush_rate (setFlushRate R fs) = R"
    by (simp_all add: setFlushRate_def)
next
  assume "0 <s R"
  then have R: "0 < sint R" by (simp add: word_sless_alt)
  let ?fs0 = "setFlushRate R fs"
  have c0: "0 \<le> sint (flush_count ?fs0)" "sint (flush_count ?fs0) < sint (flush_rate ?fs0)"
    using R by (simp_all add: setFlushRate_def)
  from writes_count [OF c0, of ss]
  show "int (flushes (writes ss ?fs0)) =
          int (flushes fs) +
          int (successes (qf_outcome (qfile fs)) (qf_nwrites (qfile fs)) (length ss)) div sint R"
    by (simp add: setFlushRate_def flushes_def)
qed

theorem flush_once_every_rate_successful_writes_witness:
  "flush_count (QLoggerFileStream_init plain_file) = 0
   \<and> 0 <s flush_rate (QLoggerFileStream_init plain_file)
   \<and> qf_events (qfile (writes ([''a'', ''b'', ''c''] @ [''d'']) (QLoggerFileStream_init plain_file)))
       = [FWrite ''a'', FWrite ''b'', FWrite ''c'', FWrite ''d'', FFlush]
   \<and> flush_count (setFlushRate 0 (QLoggerFileStream_init plain_file)) = 0
   \<and> \<not> 0 <s flush_rate (setFlushRate 0 (QLoggerFileStream_init plain_file))
   \<and> qf_events (qfile (writes [''a'', ''b'', ''c'', ''d'', ''e'']
         (setFlushRate 0 (QLoggerFileStream_init plain_file))))
       = [FWrite ''a'', FWrite ''b'', FWrite ''c'', FWrite ''d'', FWrite ''e'']"
  using flush_once_every_rate_successful_writes
      [of "QLoggerFileStream_init plain_file" "[''a'', ''b'', ''c'']" "''d''"]
    flush_once_every_rate_successful_writes
      [of "setFlushRate 0 (QLoggerFileStream_init plain_file)"
          "[''a'', ''b'', ''c'', ''d'', ''e'']" "''f''"]
  by (simp add: QLoggerFileStream_init_def plain_file_def setFlushRate_def
      QLoggerFileStream_write_def QFile_write_def QFile_flush_def int_rem_def
      signed_modulo_int_def word_sless_alt)

theorem failed_write_keeps_counter_and_setFlushRate_resets_witness:
  "qf_outcome (qfile (QLoggerFileStream_init full_disk))
      (qf_nwrites (qfile (QLoggerFileStream_init full_disk))) = - 1
   \<and> QLoggerFileStream_write ''a'' (QLoggerFileStream_init full_disk) =
       (- 1, (QLoggerFileStream_init full_disk)
               \<lparr>qfile := full_disk\<lparr>qf_nwrites := 1, qf_events := [FWrite ''a'']\<rparr>\<rparr>)
   \<and> 0 <s (2 :: 32 word)
   \<and> flushes (writes [''a'', ''b'', ''c'']
        (setFlushRate 2 (snd (QLoggerFileStream_write ''z'' (QLoggerFileStream_init plain_file)))))
       = 1"
  using failed_write_keeps_counter_and_setFlushRate_resets
      [of "QLoggerFileStream_init full_disk" "''a''" 2 "[]"]
    failed_write_keeps_counter_and_setFlushRate_resets
      [of "snd (QLoggerFileStream_write ''z'' (QLoggerFileStream_init plain_file))" "''a''" 2
          "[''a'', ''b'', ''c'']"]
  by (simp add: QLoggerFileStream_init_def plain_file_def full_disk_def setFlushRate_def
      QLoggerFileStream_write_def QFile_write_def QFile_flush_def int_rem_def
      signed_modulo_int_def word_sless_alt flushes_def)

section \<open>The worker loop\<close>

declare run_loop.simps [simp del]


lemma addMessage_eq:
  "addMessage message level now lg =
     lg\<lparr>empty_waiter := False,
        messages := messages lg @ [formatted lg message level now],
        messages_size := int (length (messages lg)) + 1\<rparr>"
  by (simp add: addMessage_def addMessage_steps_def formatted_def)

lemma finishWriting_eq: "finishWriting lg = lg\<lparr>empty_waiter := False, finish := 1\<rparr>"
  by (simp add: finishWriting_def finishWriting_steps_def)

lemma formatted_cong:
  "format_string lg' = format_string lg \<Longrightarrow> datetime_format lg' = datetime_format lg \<Longrightarrow>
   formatted lg' message level now = formatted lg message level now"
  by (simp add: formatted_def)

lemma addMessages_eq:
  "addMessages cs lg =
     (if cs = [] then lg
      else lg\<lparr>empty_waiter := False,
              messages := messages lg @ map (\<lambda>(m, l, now). formatted lg m l now) cs,
              messages_size := int (length (messages lg) + length cs)\<rparr>)"
proof (induction cs arbitrary: lg)
  case Nil
  show ?case by simp
next
  case (Cons c cs)
  obtain m l now where c: "c = (m, l, now)" by (cases c)
  let ?lg1 = "addMessage m l now lg"
  have f: "\<And>m' l' now'. formatted ?lg1 m' l' now' = formatted lg m' l' now'"
    by (rule formatted_cong) (simp_all add: addMessage_eq)
  show ?case
    by (simp add: c Cons.IH f) (simp add: addMessage_eq)
qed

section \<open>The claims about the logger\<close>

text \<open>
  C1. One call of \<open>addMessage\<close> followed by \<open>finishWriting\<close>, on a file that opens and takes
  every write, with the worker started first. The worker writes the line and waits again.
  \<open>finishWriting\<close> wakes it as its first statement; the worker, running before \<open>_finish\<close> is
  set, finds the flag 0 and the queue empty and waits once more; then \<open>finishWriting\<close> sets
  the flag. Nothing wakes the worker after that: \<open>run\<close> has not returned, the stream has had
  \<open>open\<close> and the one \<open>write\<close> and no \<open>close\<close>, and the file is still open.
\<close>

theorem worker_misses_finish_and_never_closes:
  "\<exists>lg1 lg2 lg3.
     run QLoggerFileStream_vt (QLogger_init (QLoggerFileStream_init plain_file)) = Blocked lg1
     \<and> resume QLoggerFileStream_vt (addMessage ''hello'' Info noon lg1) = Blocked lg2
     \<and> resume QLoggerFileStream_vt (exec_steps (take 1 finishWriting_steps) lg2) = Blocked lg3
     \<and> finish (exec_steps (drop 1 finishWriting_steps) lg3) = 1
     \<and> messages (exec_steps (drop 1 finishWriting_steps) lg3) = []
     \<and> resume QLoggerFileStream_vt (exec_steps (drop 1 finishWriting_steps) lg3)
         = Blocked (exec_steps (drop 1 finishWriting_steps) lg3)
     \<and> stream_calls (exec_steps (drop 1 finishWriting_steps) lg3)
         = [COpen, CWrite ''[02.11.2026 12:00:00] INFO hello\<newline>'']
     \<and> qf_events (qfile (stream (exec_steps (drop 1 finishWriting_steps) lg3)))
         = [FOpen, FWrite ''[02.11.2026 12:00:00] INFO hello\<newline>'']
     \<and> qf_isOpen (qfile (stream (exec_steps (drop 1 finishWriting_steps) lg3)))"
proof -
  let ?vt = "QLoggerFileStream_vt"
  let ?line = "''[02.11.2026 12:00:00] INFO hello\<newline>''"
  let ?fs1 = "snd (QLoggerFileStream_open (QLoggerFileStream_init plain_file))"
  let ?lg1 = "(QLogger_init (QLoggerFileStream_init plain_file))
                \<lparr>stream := ?fs1, stream_calls := [COpen], empty_waiter := True\<rparr>"
  let ?lg2 = "?lg1\<lparr>stream := snd (QLoggerFileStream_write ?line ?fs1),
                   stream_calls := [COpen, CWrite ?line]\<rparr>"
  let ?lg4 = "exec_steps (drop 1 finishWriting_steps) ?lg2"
  have f: "formatted ?lg1 ''hello'' Info noon = ?line"
    by (simp add: formatted_def QLogger_init_def noon_def logLevelToString_def
        QString_arg_def escape_at_def escape_digits_def digitValue_def)
  have 1: "run ?vt (QLogger_init (QLoggerFileStream_init plain_file)) = Blocked ?lg1"
    by (simp add: run_def QLoggerFileStream_vt_def QLogger_init_def run_loop.simps
        QLoggerFileStream_open_def QFile_open_def QLoggerFileStream_init_def plain_file_def)
  have 2: "resume ?vt (addMessage ''hello'' Info noon ?lg1) = Blocked ?lg2"
    by (simp add: resume_def addMessage_eq f run_loop.simps pop_front_def)
       (simp add: QLogger_init_def QLoggerFileStream_vt_def run_loop.simps)
  have 3: "resume ?vt (exec_steps (take 1 finishWriting_steps) ?lg2) = Blocked ?lg2"
    by (simp add: resume_def finishWriting_steps_def QLogger_init_def run_loop.simps)
  have 4: "?lg4 = ?lg2\<lparr>finish := 1\<rparr>"
    by (simp add: finishWriting_steps_def)
  have a: "finish ?lg4 = 1" "messages ?lg4 = []" "stream_calls ?lg4 = [COpen, CWrite ?line]"
    by (simp_all only: 4) (simp_all add: QLogger_init_def)
  have b: "resume ?vt ?lg4 = Blocked ?lg4"
    by (simp only: 4) (simp add: resume_def)
  have c: "qf_events (qfile (stream ?lg4)) = [FOpen, FWrite ?line]"
    "qf_isOpen (qfile (stream ?lg4))"
    by (simp_all only: 4)
       (simp_all add: QLoggerFileStream_open_def QFile_open_def QLoggerFileStream_init_def
          plain_file_def QLoggerFileStream_write_def QFile_write_def int_rem_def
          signed_modulo_int_def word_sless_alt)
  from 1 2 3 a b c show ?thesis by blast
qed

text \<open>
  C2. When \<open>open\<close> returns false, \<open>run\<close> returns at once, whatever is queued: the error string
  of the logger is the error text of the stream, the calls made on the stream are \<open>open\<close>,
  \<open>errorString\<close> and \<open>close\<close> and no \<open>write\<close>, and the queue is as it was.
\<close>

theorem open_failure_records_error_and_writes_nothing:
  assumes "\<not> fst (s_open vt (stream lg))"
  shows "\<exists>lg'. run vt lg = Returned lg'
           \<and> errorString lg' = s_errorString vt (snd (s_open vt (stream lg)))
           \<and> stream_calls lg' = stream_calls lg @ [COpen, CErrorString, CClose]
           \<and> stream lg' = s_close vt (snd (s_open vt (stream lg)))
           \<and> messages lg' = messages lg"
  using assms by (cases "s_open vt (stream lg)") (simp add: run_def errorString_def)

theorem open_failure_witness:
  "\<not> fst (s_open QLoggerFileStream_vt
        (stream (addMessages [(''hello'', Info, noon), (''bye'', Fatal, noon)]
           (QLogger_init (QLoggerFileStream_init locked_file)))))
   \<and> (\<exists>lg'. run QLoggerFileStream_vt
          (addMessages [(''hello'', Info, noon), (''bye'', Fatal, noon)]
             (QLogger_init (QLoggerFileStream_init locked_file))) = Returned lg'
        \<and> errorString lg' = ''Permission denied''
        \<and> stream_calls lg' = [COpen, CErrorString, CClose]
        \<and> qf_events (qfile (stream lg')) = [FOpen, FClose]
        \<and> length (messages lg') = 2)"
  using open_failure_records_error_and_writes_nothing
    [of QLoggerFileStream_vt
        "addMessages [(''hello'', Info, noon), (''bye'', Fatal, noon)]
           (QLogger_init (QLoggerFileStream_init locked_file))"]
  by (auto simp: QLoggerFileStream_vt_def QLoggerFileStream_open_def QFile_open_def
      QLoggerFileStream_close_def QFile_close_def QLoggerFileStream_errorString_def
      QLoggerFileStream_init_def locked_file_def addMessages_eq QLogger_init_def)

text \<open>
  C3. \<open>addMessage\<close> signals first: \<open>_empty.wakeOne()\<close> is its first step, before the lock is
  taken and two steps before the line is appended. With the worker blocked on an empty queue,
  the worker woken by that first step finds the queue still empty and blocks again; the line
  appended afterwards stays in the queue, unwritten, with the worker blocked.
\<close>

theorem addMessage_signals_before_it_appends:
  "addMessage_steps ''hello'' Info noon
     = [WakeOne, Lock, Append ''hello'' Info noon, StoreSize, Unlock]
   \<and> (\<exists>lg1 lg2.
        run QLoggerDebugStream_vt (QLogger_init ()) = Blocked lg1
        \<and> resume QLoggerDebugStream_vt
            (exec_steps (take 1 (addMessage_steps ''hello'' Info noon)) lg1) = Blocked lg2
        \<and> messages (exec_steps (drop 1 (addMessage_steps ''hello'' Info noon)) lg2)
            = [''[02.11.2026 12:00:00] INFO hello\<newline>'']
        \<and> empty_waiter (exec_steps (drop 1 (addMessage_steps ''hello'' Info noon)) lg2)
        \<and> stream_calls (exec_steps (drop 1 (addMessage_steps ''hello'' Info noon)) lg2)
            = [COpen])"
proof -
  let ?lg0 = "(QLogger_init ())\<lparr>stream_calls := [COpen]\<rparr>"
  let ?lg1 = "?lg0\<lparr>empty_waiter := True\<rparr>"
  have 1: "run QLoggerDebugStream_vt (QLogger_init ()) = Blocked ?lg1"
    by (simp add: run_def QLoggerDebugStream_vt_def QLogger_init_def run_loop.simps)
  have 2: "resume QLoggerDebugStream_vt
             (exec_steps (take 1 (addMessage_steps ''hello'' Info noon)) ?lg1) = Blocked ?lg1"
    by (simp add: resume_def addMessage_steps_def QLogger_init_def run_loop.simps)
  have 3: "formatted ?lg1 ''hello'' Info noon = ''[02.11.2026 12:00:00] INFO hello\<newline>''"
    by (simp add: formatted_def QLogger_init_def noon_def logLevelToString_def
        QString_arg_def escape_at_def escape_digits_def digitValue_def)
  let ?lg3 = "exec_steps (drop 1 (addMessage_steps ''hello'' Info noon)) ?lg1"
  have 4: "?lg3 =
             ?lg1\<lparr>messages := [''[02.11.2026 12:00:00] INFO hello\<newline>''], messages_size := 1\<rparr>"
    by (simp add: addMessage_steps_def 3) (simp add: QLogger_init_def)
  have a: "messages ?lg3 = [''[02.11.2026 12:00:00] INFO hello\<newline>'']"
    by (simp only: 4) simp
  have b: "empty_waiter ?lg3"
    by (simp only: 4) simp
  have c: "stream_calls ?lg3 = [COpen]"
    by (simp only: 4) simp
  have s: "addMessage_steps ''hello'' Info noon
             = [WakeOne, Lock, Append ''hello'' Info noon, StoreSize, Unlock]"
    by (simp add: addMessage_steps_def)
  from 1 2 a b c s show ?thesis by blast
qed

text \<open>
  C5. With the datetime pattern \<open>%2\<close>, which has no pattern letter and which the clock prints
  as it is, the timestamp is \<open>%2\<close>. The default template is filled by three \<open>arg\<close> calls in a
  row: the first puts the timestamp in place of \<open>%1\<close>, and the second, which scans that
  result, fills the \<open>%2\<close> of the timestamp with the level as well as the template's own. The
  queued line is \<open>[INFO] INFO hello\<close> and a newline, and not \<open>[%2] INFO hello\<close> and a newline.
\<close>

theorem chained_arg_fills_marker_of_timestamp:
  "messages (addMessage ''hello'' Info id (setDatetimeFormat ''%2'' (QLogger_init ())))
     = [''[INFO] INFO hello\<newline>'']
   \<and> messages (addMessage ''hello'' Info id (setDatetimeFormat ''%2'' (QLogger_init ())))
     \<noteq> [''['' @ id ''%2'' @ ''] '' @ logLevelToString Info @ '' '' @ ''hello'' @ ''\<newline>'']
   \<and> format_string (setDatetimeFormat ''%2'' (QLogger_init ())) = ''[%1] %2 %3''"
  by (simp add: addMessage_eq setDatetimeFormat_def QLogger_init_def formatted_def
      logLevelToString_def QString_arg_def escape_at_def escape_digits_def digitValue_def)

text \<open>
  C6. The worker is parked on the empty queue of a new logger. A first \<open>finishWriting\<close> wakes
  it as its first statement; the worker, running before \<open>_finish\<close> is set, finds the flag 0
  and the queue empty and waits again; the call then sets the flag and is over, with the
  worker still waiting and the file open. A second \<open>finishWriting\<close> wakes the worker, which
  now finds the flag set, closes the stream and returns: the second call does what the first
  did not.
\<close>

theorem second_finishWriting_releases_the_worker:
  "\<exists>lg1 lg2 lg3.
     run QLoggerFileStream_vt (QLogger_init (QLoggerFileStream_init plain_file)) = Blocked lg1
     \<and> resume QLoggerFileStream_vt (exec_steps (take 1 finishWriting_steps) lg1) = Blocked lg2
     \<and> finish (exec_steps (drop 1 finishWriting_steps) lg2) = 1
     \<and> resume QLoggerFileStream_vt (exec_steps (drop 1 finishWriting_steps) lg2)
         = Blocked (exec_steps (drop 1 finishWriting_steps) lg2)
     \<and> stream_calls (exec_steps (drop 1 finishWriting_steps) lg2) = [COpen]
     \<and> qf_events (qfile (stream (exec_steps (drop 1 finishWriting_steps) lg2))) = [FOpen]
     \<and> qf_isOpen (qfile (stream (exec_steps (drop 1 finishWriting_steps) lg2)))
     \<and> resume QLoggerFileStream_vt
           (finishWriting (exec_steps (drop 1 finishWriting_steps) lg2)) = Returned lg3
     \<and> stream_calls lg3 = [COpen, CClose]
     \<and> qf_events (qfile (stream lg3)) = [FOpen, FClose]
     \<and> \<not> qf_isOpen (qfile (stream lg3))"
proof -
  let ?vt = "QLoggerFileStream_vt"
  let ?fs1 = "snd (QLoggerFileStream_open (QLoggerFileStream_init plain_file))"
  let ?lg1 = "(QLogger_init (QLoggerFileStream_init plain_file))
                \<lparr>stream := ?fs1, stream_calls := [COpen], empty_waiter := True\<rparr>"
  let ?lg2 = "exec_steps (drop 1 finishWriting_steps) ?lg1"
  let ?lg3 = "?lg1\<lparr>finish := 1, empty_waiter := False,
                   stream := QLoggerFileStream_close ?fs1, stream_calls := [COpen, CClose]\<rparr>"
  have 1: "run ?vt (QLogger_init (QLoggerFileStream_init plain_file)) = Blocked ?lg1"
    by (simp add: run_def QLoggerFileStream_vt_def QLogger_init_def run_loop.simps
        QLoggerFileStream_open_def QFile_open_def QLoggerFileStream_init_def plain_file_def)
  have 2: "resume ?vt (exec_steps (take 1 finishWriting_steps) ?lg1) = Blocked ?lg1"
    by (simp add: resume_def finishWriting_steps_def QLogger_init_def run_loop.simps)
  have 3: "?lg2 = ?lg1\<lparr>finish := 1\<rparr>"
    by (simp add: finishWriting_steps_def)
  have a: "finish ?lg2 = 1" "stream_calls ?lg2 = [COpen]"
    by (simp_all only: 3) simp_all
  have b: "resume ?vt ?lg2 = Blocked ?lg2"
    by (simp only: 3) (simp add: resume_def)
  have c: "qf_events (qfile (stream ?lg2)) = [FOpen]" "qf_isOpen (qfile (stream ?lg2))"
    by (simp_all only: 3)
       (simp_all add: QLoggerFileStream_open_def QFile_open_def QLoggerFileStream_init_def
          plain_file_def)
  have 4: "resume ?vt (finishWriting ?lg2) = Returned ?lg3"
    by (simp only: 3)
       (simp add: resume_def finishWriting_eq QLogger_init_def QLoggerFileStream_vt_def
          run_loop.simps)
  have d: "stream_calls ?lg3 = [COpen, CClose]" by simp
  have e: "qf_events (qfile (stream ?lg3)) = [FOpen, FClose]" "\<not> qf_isOpen (qfile (stream ?lg3))"
    by (simp_all add: QLoggerFileStream_open_def QFile_open_def QLoggerFileStream_init_def
          plain_file_def QLoggerFileStream_close_def QFile_close_def)
  from 1 2 a b c 4 d e show ?thesis by blast
qed



lemma apply_events_keep_size:
  assumes "messages_size lg = int (length (messages lg))"
  shows "\<exists>lg'. apply_events es lg = Some lg' \<and> messages_size lg' = int (length (messages lg'))"
  using assms
proof (induction es arbitrary: lg)
  case Nil
  then show ?case by simp
next
  case (Cons e es)
  have "\<exists>lg1. apply_event e lg = Some lg1 \<and> messages_size lg1 = int (length (messages lg1))"
  proof (cases e)
    case (AddMessage message level now)
    then show ?thesis by (simp add: addMessage_eq)
  next
    case FinishWriting
    with Cons.prems show ?thesis by (simp add: finishWriting_eq)
  next
    case (SetFormatString f)
    with Cons.prems show ?thesis by (simp add: setFormatString_def)
  next
    case (SetDatetimeFormat d)
    with Cons.prems show ?thesis by (simp add: setDatetimeFormat_def)
  next
    case WorkerPop
    with Cons.prems show ?thesis
      by (cases "messages lg") (simp_all add: pop_front_def)
  qed
  then obtain lg1 where 1: "apply_event e lg = Some lg1"
    and 2: "messages_size lg1 = int (length (messages lg1))" by blast
  from Cons.IH [OF 2] 1 show ?case by simp
qed

text \<open>
  C8. From the constructor on, after any sequence of calls of \<open>addMessage\<close>, \<open>finishWriting\<close>
  and the two setters and of pops by the worker, in any order, the stored size is the length
  of the queue; no pop in such a sequence finds the queue empty.
\<close>

theorem size_counter_is_queue_length:
  "\<exists>lg. apply_events es (QLogger_init st) = Some lg
     \<and> messages_size lg = int (length (messages lg))"
  by (rule apply_events_keep_size) (simp add: QLogger_init_def)

text \<open>
  C9. For a level that is none of the four enumerators, \<open>logLevelToString\<close> returns the empty
  string, and \<open>addMessage\<close> appends one line: the template filled with the timestamp, the
  empty string and the message, and a newline.
\<close>

theorem unknown_level_is_empty_string:
  assumes "level \<noteq> Info" "level \<noteq> Debug" "level \<noteq> Warning" "level \<noteq> Fatal"
  shows "logLevelToString level = []
         \<and> messages (addMessage message level now lg) =
             messages lg @
               [QString_arg (QString_arg (QString_arg (format_string lg) (now (datetime_format lg))) [])
                  message @ ''\<newline>'']"
  using assms by (simp add: logLevelToString_def addMessage_eq formatted_def)

theorem unknown_level_is_empty_string_witness:
  "(7 :: LogLevel) \<noteq> Info \<and> (7 :: LogLevel) \<noteq> Debug \<and> (7 :: LogLevel) \<noteq> Warning
   \<and> (7 :: LogLevel) \<noteq> Fatal
   \<and> logLevelToString 7 = []
   \<and> messages (addMessage ''hello'' 7 noon (QLogger_init ()))
       = [''[02.11.2026 12:00:00]  hello\<newline>'']"
  using unknown_level_is_empty_string [of 7 "''hello''" noon "QLogger_init ()"]
  by (simp add: Info_def Debug_def Warning_def Fatal_def QLogger_init_def noon_def
      QString_arg_def escape_at_def escape_digits_def digitValue_def)

end
